theory Spec2Isabelle
  imports Main "HOL-Library.AList"
begin

section \<open>The job tracker of bulk-ai-image (lib/queue-manager.js)\<close>

text \<open>
  A shallow embedding of the class \<open>QueueManager\<close>. The object's fields become a
  record that every method takes and returns; the methods that only read return their
  result together with the tracker they leave behind. Statuses are JavaScript strings
  and stay strings. The progress counters are JavaScript numbers that are only ever
  incremented and decremented by one, so they are integers here (\<open>pending--\<close> may go
  below zero). \<open>new Date()\<close> is the reading of a clock, passed as the argument \<open>now\<close>.
  \<open>this.emit\<close> appends to a log of the notifications emitted so far; the job that
  \<open>jobUpdate\<close> carries is recorded as it is at the moment of the emission.
\<close>

subsection \<open>Data\<close>

text \<open>An entry of \<open>job.images\<close>; \<open>null\<close> and a missing property are \<open>None\<close>.\<close>

record ImageTask =
  path :: string
  status :: string
  outputPath :: "string option"
  error :: "string option"
  analysis :: "string option"

record Progress =
  total :: int
  completed :: int
  failed :: int
  pending :: int

record Job =
  jobId :: string
  status :: string
  images :: "ImageTask list"
  createdAt :: nat
  completedAt :: "nat option"
  progress :: Progress

text \<open>The optional fourth argument of \<open>updateImageStatus\<close>; \<open>{}\<close> is \<open>noData\<close>.\<close>

record Data =
  outputPath :: "string option"
  error :: "string option"
  analysis :: "string option"

definition noData :: Data where
  "noData = \<lparr>Data.outputPath = None, Data.error = None, Data.analysis = None\<rparr>"

datatype event =
  JobStart string
  | JobComplete string
  | JobUpdate string Job

text \<open>
  \<open>jobs\<close> is a JavaScript \<open>Map\<close> and \<open>activeJobs\<close> a \<open>Set\<close>; both keep their entries in
  insertion order, so they are lists here: an association list with one entry per key,
  and a list without repetitions. \<open>queue\<close> is an array.
\<close>

record QueueManager =
  maxConcurrent :: int
  jobs :: "(string \<times> Job) list"
  activeJobs :: "string list"
  queue :: "string list"
  emitted :: "event list"

subsection \<open>The JavaScript library operations the methods use\<close>

text \<open>\<open>Set.prototype.add\<close>: an element already present keeps its place.\<close>

definition set_add :: "'a \<Rightarrow> 'a list \<Rightarrow> 'a list" where
  "set_add x xs = (if x \<in> set xs then xs else xs @ [x])"

text \<open>\<open>Set.prototype.delete\<close>.\<close>

definition set_delete :: "'a \<Rightarrow> 'a list \<Rightarrow> 'a list" where
  "set_delete x xs = removeAll x xs"

text \<open>\<open>Array.prototype.indexOf\<close>: the first index holding the element, or \<open>-1\<close>.\<close>

fun indexOf :: "'a list \<Rightarrow> 'a \<Rightarrow> int" where
  "indexOf [] x = - 1"
| "indexOf (y # ys) x =
     (if y = x then 0
      else (let r = indexOf ys x in if r = - 1 then - 1 else r + 1))"

text \<open>\<open>xs.splice(i, 1)\<close> for an index \<open>i\<close> that \<open>indexOf\<close> returned.\<close>

definition splice1 :: "nat \<Rightarrow> 'a list \<Rightarrow> 'a list" where
  "splice1 i xs = take i xs @ drop (Suc i) xs"

text \<open>\<open>xs[i]\<close>: \<open>undefined\<close> outside the array.\<close>

definition array_get :: "'a list \<Rightarrow> int \<Rightarrow> 'a option" where
  "array_get xs i = (if 0 \<le> i \<and> i < int (length xs) then Some (xs ! nat i) else None)"

text \<open>
  Truthiness of an optional string property, as tested by \<open>if (data.outputPath)\<close>:
  \<open>undefined\<close>, \<open>null\<close> and the empty string are falsy.
\<close>

fun truthy :: "string option \<Rightarrow> bool" where
  "truthy None = False"
| "truthy (Some v) = (v \<noteq> [])"

text \<open>
  The three lines shared by \<open>startJob\<close> and \<open>removeJob\<close>:
  \<^verbatim>\<open>const queueIndex = this.queue.indexOf(jobId);
  if (queueIndex > -1) { this.queue.splice(queueIndex, 1); }\<close>
\<close>

definition dequeue :: "string \<Rightarrow> string list \<Rightarrow> string list" where
  "dequeue jobId' q =
     (let queueIndex = indexOf q jobId'
      in if queueIndex > - 1 then splice1 (nat queueIndex) q else q)"

subsection \<open>The methods\<close>

definition constructor :: "int \<Rightarrow> QueueManager" where
  "constructor maxConcurrent' =
     \<lparr>maxConcurrent = maxConcurrent', jobs = [], activeJobs = [], queue = [], emitted = []\<rparr>"

definition newImage :: "string \<Rightarrow> ImageTask" where
  "newImage p =
     \<lparr>path = p, ImageTask.status = ''pending'', ImageTask.outputPath = None,
      ImageTask.error = None, ImageTask.analysis = None\<rparr>"

definition createJob :: "nat \<Rightarrow> string \<Rightarrow> string list \<Rightarrow> QueueManager \<Rightarrow> Job \<times> QueueManager" where
  "createJob now jobId' imagePaths s =
     (let job =
        \<lparr>jobId = jobId',
         Job.status = ''pending'',
         images = map newImage imagePaths,
         createdAt = now,
         completedAt = None,
         progress =
           \<lparr>total = int (length imagePaths), completed = 0, failed = 0,
            pending = int (length imagePaths)\<rparr>\<rparr>
      in (job, s\<lparr>jobs := AList.update jobId' job (jobs s), queue := queue s @ [jobId']\<rparr>))"

definition getJob :: "string \<Rightarrow> QueueManager \<Rightarrow> Job option \<times> QueueManager" where
  "getJob jobId' s = (map_of (jobs s) jobId', s)"

definition terminal :: "ImageTask \<Rightarrow> bool" where
  "terminal img \<longleftrightarrow> ImageTask.status img = ''completed'' \<or> ImageTask.status img = ''failed''"

definition updateImageStatus ::
  "nat \<Rightarrow> string \<Rightarrow> int \<Rightarrow> string \<Rightarrow> Data \<Rightarrow> QueueManager \<Rightarrow> QueueManager" where
  "updateImageStatus now jobId' imageIndex status' data s =
     (case map_of (jobs s) jobId' of
        None \<Rightarrow> s
      | Some job \<Rightarrow>
          (case array_get (images job) imageIndex of
             None \<Rightarrow> s
           | Some img \<Rightarrow>
               (let oldStatus = ImageTask.status img;
                    image1 = img\<lparr>ImageTask.status := status'\<rparr>;
                    image2 = (if truthy (Data.outputPath data)
                              then image1\<lparr>ImageTask.outputPath := Data.outputPath data\<rparr>
                              else image1);
                    image3 = (if truthy (Data.error data)
                              then image2\<lparr>ImageTask.error := Data.error data\<rparr>
                              else image2);
                    image4 = (if truthy (Data.analysis data)
                              then image3\<lparr>ImageTask.analysis := Data.analysis data\<rparr>
                              else image3);
                    p0 = progress job;
                    p1 = (if oldStatus = ''pending'' then p0\<lparr>pending := pending p0 - 1\<rparr> else p0);
                    p2 = (if status' = ''completed'' then p1\<lparr>completed := completed p1 + 1\<rparr>
                          else if status' = ''failed'' then p1\<lparr>failed := failed p1 + 1\<rparr>
                          else p1);
                    job1 = job\<lparr>images := (images job)[nat imageIndex := image4], progress := p2\<rparr>;
                    allDone = list_all terminal (images job1);
                    job2 = (if allDone
                            then job1\<lparr>Job.status := ''completed'', completedAt := Some now\<rparr>
                            else job1)
                in s\<lparr>jobs := AList.update jobId' job2 (jobs s),
                     activeJobs := (if allDone then set_delete jobId' (activeJobs s)
                                    else activeJobs s),
                     emitted := emitted s @ (if allDone then [JobComplete jobId'] else [])
                                @ [JobUpdate jobId' job2]\<rparr>)))"

definition startJob :: "string \<Rightarrow> QueueManager \<Rightarrow> QueueManager" where
  "startJob jobId' s =
     (case map_of (jobs s) jobId' of
        None \<Rightarrow> s
      | Some job \<Rightarrow>
          s\<lparr>jobs := AList.update jobId' (job\<lparr>Job.status := ''processing''\<rparr>) (jobs s),
            activeJobs := set_add jobId' (activeJobs s),
            queue := dequeue jobId' (queue s),
            emitted := emitted s @ [JobStart jobId']\<rparr>)"

definition canStartNewJob :: "QueueManager \<Rightarrow> bool \<times> QueueManager" where
  "canStartNewJob s =
     (int (length (activeJobs s)) < maxConcurrent s \<and> length (queue s) > 0, s)"

definition getNextJob :: "QueueManager \<Rightarrow> string option \<times> QueueManager" where
  "getNextJob s = (if length (queue s) = 0 then (None, s) else (Some (queue s ! 0), s))"

definition removeJob :: "string \<Rightarrow> QueueManager \<Rightarrow> QueueManager" where
  "removeJob jobId' s =
     s\<lparr>jobs := AList.delete jobId' (jobs s),
       activeJobs := set_delete jobId' (activeJobs s),
       queue := dequeue jobId' (queue s)\<rparr>"

definition getAllJobs :: "QueueManager \<Rightarrow> Job list \<times> QueueManager" where
  "getAllJobs s = (map snd (jobs s), s)"

record Stats =
  totalJobs :: nat
  activeJobsCount :: nat
  queuedJobs :: nat
  maxConcurrentLimit :: int

definition getStats :: "QueueManager \<Rightarrow> Stats \<times> QueueManager" where
  "getStats s =
     (\<lparr>totalJobs = length (jobs s), activeJobsCount = length (activeJobs s),
       queuedJobs = length (queue s), maxConcurrentLimit = maxConcurrent s\<rparr>, s)"

subsection \<open>Sequences of calls\<close>

text \<open>
  The tracker is only ever changed through its methods. A history of the tracker is a
  list of calls, performed in order on the tracker that the constructor returns.
\<close>

datatype call =
  CreateJob nat string "string list"
  | StartJob string
  | UpdateImageStatus nat string int string Data
  | RemoveJob string

fun perform :: "call \<Rightarrow> QueueManager \<Rightarrow> QueueManager" where
  "perform (CreateJob now jobId' imagePaths) s = snd (createJob now jobId' imagePaths s)"
| "perform (StartJob jobId') s = startJob jobId' s"
| "perform (UpdateImageStatus now jobId' imageIndex status' data) s =
     updateImageStatus now jobId' imageIndex status' data s"
| "perform (RemoveJob jobId') s = removeJob jobId' s"

definition run :: "call list \<Rightarrow> QueueManager \<Rightarrow> QueueManager" where
  "run cs s = fold perform cs s"

text \<open>\<open>obeys P s cs\<close>: every call of \<open>cs\<close> satisfies \<open>P\<close> in the tracker it is made on.\<close>

fun obeys :: "(QueueManager \<Rightarrow> call \<Rightarrow> bool) \<Rightarrow> QueueManager \<Rightarrow> call list \<Rightarrow> bool" where
  "obeys P s [] = True"
| "obeys P s (c # cs) = (P s c \<and> obeys P (perform c s) cs)"

text \<open>
  The lifecycle of an image, \<open>pending \<rightarrow> processing \<rightarrow> completed | failed\<close>: an update
  that lands moves an image that is still pending or processing to one of the three
  statuses the method documents. Calls that do not land, and the other methods, are
  not restricted.
\<close>

fun in_lifecycle :: "QueueManager \<Rightarrow> call \<Rightarrow> bool" where
  "in_lifecycle s (UpdateImageStatus now jobId' imageIndex status' data) =
     (case map_of (jobs s) jobId' of
        None \<Rightarrow> True
      | Some job \<Rightarrow>
          (case array_get (images job) imageIndex of
             None \<Rightarrow> True
           | Some img \<Rightarrow>
               ImageTask.status img \<in> {''pending'', ''processing''} \<and>
               status' \<in> {''processing'', ''completed'', ''failed''}))"
| "in_lifecycle s c = True"

text \<open>
  The caller's side of \<open>@param jobId - Unique job identifier\<close>: \<open>createJob\<close> is not
  given an identifier that is registered at that moment.
\<close>

fun fresh_id :: "QueueManager \<Rightarrow> call \<Rightarrow> bool" where
  "fresh_id s (CreateJob now jobId' imagePaths) = (map_of (jobs s) jobId' = None)"
| "fresh_id s c = True"

text \<open>The ids given to \<open>createJob\<close> in a history, in order.\<close>

fun created :: "call list \<Rightarrow> string list" where
  "created [] = []"
| "created (CreateJob now jobId' imagePaths # cs) = jobId' # created cs"
| "created (c # cs) = created cs"

text \<open>The number of images of a job that have a given status.\<close>

definition statusCount :: "string \<Rightarrow> Job \<Rightarrow> int" where
  "statusCount st job = int (count_list (map ImageTask.status (images job)) st)"

subsection \<open>Predicates on trackers and jobs\<close>

text \<open>The sum that the counters of a job are meant to keep equal to \<open>total\<close>.\<close>

definition progressSum :: "Job \<Rightarrow> int" where
  "progressSum job = completed (progress job) + failed (progress job) + pending (progress job)"

text \<open>
  A job whose counters agree with its images: \<open>total\<close> is their number, and \<open>pending\<close>,
  \<open>completed\<close> and \<open>failed\<close> are the numbers of images with that status; no image has a
  status outside the four.
\<close>

definition tallied :: "Job \<Rightarrow> bool" where
  "tallied job \<longleftrightarrow>
     Progress.total (progress job) = int (length (images job)) \<and>
     pending (progress job) = statusCount ''pending'' job \<and>
     completed (progress job) = statusCount ''completed'' job \<and>
     failed (progress job) = statusCount ''failed'' job \<and>
     set (map ImageTask.status (images job))
       \<subseteq> {''pending'', ''processing'', ''completed'', ''failed''}"

definition all_tallied :: "QueueManager \<Rightarrow> bool" where
  "all_tallied s \<longleftrightarrow> (\<forall>jid job. map_of (jobs s) jid = Some job \<longrightarrow> tallied job)"

text \<open>
  A tracker whose three collections agree: no id is queued twice, and every queued or
  active id is registered.
\<close>

definition tidy :: "QueueManager \<Rightarrow> bool" where
  "tidy s \<longleftrightarrow> distinct (queue s) \<and> set (queue s) \<subseteq> fst ` set (jobs s) \<and>
     set (activeJobs s) \<subseteq> fst ` set (jobs s)"

text \<open>How many times \<open>jobComplete\<close> has been emitted for an id.\<close>

definition completions :: "QueueManager \<Rightarrow> string \<Rightarrow> nat" where
  "completions s jobId' = count_list (emitted s) (JobComplete jobId')"

text \<open>A job that has an image and whose images are all completed or failed.\<close>

definition finished :: "Job \<Rightarrow> bool" where
  "finished job \<longleftrightarrow> images job \<noteq> [] \<and> list_all terminal (images job)"

text \<open>
  The state of the completions in a tracker whose \<open>createJob\<close> calls so far used the
  ids in \<open>U\<close>: nothing is registered or completed under another id, no id has completed
  twice, and a registered job has completed, and has its \<open>completedAt\<close>, exactly when it
  is finished.
\<close>

definition once :: "string set \<Rightarrow> QueueManager \<Rightarrow> bool" where
  "once U s \<longleftrightarrow>
     (\<forall>jid. jid \<notin> U \<longrightarrow> map_of (jobs s) jid = None \<and> completions s jid = 0) \<and>
     (\<forall>jid. completions s jid \<le> 1) \<and>
     (\<forall>jid job. map_of (jobs s) jid = Some job \<longrightarrow>
        (completions s jid = 1 \<longleftrightarrow> finished job) \<and>
        (completedAt job \<noteq> None \<longleftrightarrow> finished job) \<and>
        (Job.status job = ''completed'' \<longrightarrow> finished job))"

text \<open>
  The lists that stand for the \<open>Map\<close> and the \<open>Set\<close> hold every key and every element
  once, so that their lengths are the \<open>size\<close> of the \<open>Map\<close> and of the \<open>Set\<close>.
\<close>

definition represented :: "QueueManager \<Rightarrow> bool" where
  "represented s \<longleftrightarrow> distinct (map fst (jobs s)) \<and> distinct (activeJobs s)"

subsection \<open>The body of \<open>updateImageStatus\<close>, in parts\<close>

text \<open>What the method does to the image it addresses (lines 68 to 73).\<close>

definition withData :: "string \<Rightarrow> Data \<Rightarrow> ImageTask \<Rightarrow> ImageTask" where
  "withData st d img =
     img\<lparr>ImageTask.status := st,
         ImageTask.outputPath :=
           (if truthy (Data.outputPath d) then Data.outputPath d else ImageTask.outputPath img),
         ImageTask.error :=
           (if truthy (Data.error d) then Data.error d else ImageTask.error img),
         ImageTask.analysis :=
           (if truthy (Data.analysis d) then Data.analysis d else ImageTask.analysis img)\<rparr>"

text \<open>What it does to the counters (lines 76 to 82).\<close>

definition counted :: "string \<Rightarrow> string \<Rightarrow> Progress \<Rightarrow> Progress" where
  "counted oldStatus st p =
     p\<lparr>pending := pending p - (if oldStatus = ''pending'' then 1 else 0),
       completed := completed p + (if st = ''completed'' then 1 else 0),
       failed := failed p + (if st = ''failed'' then 1 else 0)\<rparr>"

text \<open>The job as the method leaves it (lines 67 to 92), for an index inside the array.\<close>

definition updatedJob :: "nat \<Rightarrow> nat \<Rightarrow> string \<Rightarrow> Data \<Rightarrow> Job \<Rightarrow> Job" where
  "updatedJob now k st d job =
     (let job1 = job\<lparr>images := (images job)[k := withData st d (images job ! k)],
                     progress := counted (ImageTask.status (images job ! k)) st (progress job)\<rparr>
      in if list_all terminal (images job1)
         then job1\<lparr>Job.status := ''completed'', completedAt := Some now\<rparr>
         else job1)"

subsection \<open>Example trackers\<close>

text \<open>A tracker with one job of two images, and one whose only job has no image.\<close>

definition twoImages :: QueueManager where
  "twoImages = snd (createJob 7 ''a'' [''x.png'', ''y.png''] (constructor 3))"

definition noImages :: QueueManager where
  "noImages = snd (createJob 7 ''e'' [] (constructor 3))"

text \<open>The same with a second job, of one image, created and started.\<close>

definition twoJobs :: QueueManager where
  "twoJobs = startJob ''b'' (snd (createJob 8 ''b'' [''z.png''] twoImages))"

definition jobA :: Job where
  "jobA = fst (createJob 7 ''a'' [''x.png'', ''y.png''] (constructor 3))"

definition jobB :: Job where
  "jobB = fst (createJob 8 ''b'' [''z.png''] twoImages)"

text \<open>A started job of one image, and the same after two updates of that image.\<close>

definition oneImage :: QueueManager where
  "oneImage = startJob ''c'' (snd (createJob 7 ''c'' [''x.png''] (constructor 3)))"

definition twice :: QueueManager where
  "twice = updateImageStatus 9 ''c'' 0 ''failed'' noData
             (updateImageStatus 8 ''c'' 0 ''completed'' noData oneImage)"

text \<open>Three histories: an id created twice; a job under way; a job removed.\<close>

definition dup :: QueueManager where
  "dup = run [CreateJob 7 ''a'' [], CreateJob 8 ''a'' []] (constructor 3)"

definition history :: "call list" where
  "history = [CreateJob 7 ''a'' [''x.png'', ''y.png''], StartJob ''a'',
              UpdateImageStatus 8 ''a'' 0 ''processing'' noData,
              UpdateImageStatus 9 ''a'' 0 ''completed'' noData,
              UpdateImageStatus 10 ''a'' 1 ''processing'' noData]"

definition cleanup :: "call list" where
  "cleanup = [CreateJob 7 ''a'' [], CreateJob 8 ''b'' [''z.png''], StartJob ''b'',
              RemoveJob ''a'']"

text \<open>
  The three-image history: image 0 completed, image 1 failed, then image 2 completed.
\<close>

definition scenario :: "call list" where
  "scenario = [CreateJob 7 ''a'' [''x.png'', ''y.png'', ''z.png''], StartJob ''a'',
               UpdateImageStatus 8 ''a'' 0 ''completed'' noData,
               UpdateImageStatus 9 ''a'' 1 ''failed'' noData,
               UpdateImageStatus 10 ''a'' 2 ''completed'' noData]"

section \<open>Properties\<close>

subsection \<open>Library operations\<close>

lemma indexOf_ge: "- 1 \<le> indexOf q x"
  by (induction q) (auto simp: Let_def)

lemma dequeue_Nil: "dequeue x [] = []"
  by (simp add: dequeue_def)

lemma dequeue_Cons: "dequeue x (y # q) = (if y = x then q else y # dequeue x q)"
  using indexOf_ge [of q x]
  by (auto simp: dequeue_def splice1_def Let_def nat_add_distrib)

text \<open>\<open>indexOf\<close> followed by \<open>splice\<close> removes the first occurrence, and only that one.\<close>

lemma dequeue_remove1: "dequeue x q = remove1 x q"
  by (induction q) (auto simp: dequeue_Nil dequeue_Cons)

subsection \<open>\<open>updateImageStatus\<close> on a call that lands, and on one that does not\<close>

lemma updateImageStatus_valid:
  assumes "map_of (jobs s) jid = Some job" "0 \<le> i" "i < int (length (images job))"
  shows "updateImageStatus now jid i st d s =
     (let job' = updatedJob now (nat i) st d job; allDone = list_all terminal (images job')
      in s\<lparr>jobs := AList.update jid job' (jobs s),
           activeJobs := (if allDone then set_delete jid (activeJobs s) else activeJobs s),
           emitted := emitted s @ (if allDone then [JobComplete jid] else [])
                      @ [JobUpdate jid job']\<rparr>)"
  using assms
  by (simp add: updateImageStatus_def array_get_def Let_def updatedJob_def withData_def
      counted_def)

lemma updateImageStatus_unknown:
  "map_of (jobs s) jid = None \<Longrightarrow> updateImageStatus now jid i st d s = s"
  by (simp add: updateImageStatus_def)

lemma updateImageStatus_out_of_range:
  "map_of (jobs s) jid = Some job \<Longrightarrow> i < 0 \<or> int (length (images job)) \<le> i \<Longrightarrow>
   updateImageStatus now jid i st d s = s"
  by (auto simp: updateImageStatus_def array_get_def)

lemma images_updatedJob:
  "images (updatedJob now k st d job) = (images job)[k := withData st d (images job ! k)]"
  by (simp add: updatedJob_def Let_def)

lemma progress_updatedJob:
  "progress (updatedJob now k st d job) =
   counted (ImageTask.status (images job ! k)) st (progress job)"
  by (simp add: updatedJob_def Let_def)

lemma path_withData: "path (withData st d img) = path img"
  by (simp add: withData_def)

lemma status_withData: "ImageTask.status (withData st d img) = st"
  by (simp add: withData_def)

lemma jobId_updatedJob: "jobId (updatedJob now k st d job) = jobId job"
  by (simp add: updatedJob_def Let_def)

lemma createdAt_updatedJob: "createdAt (updatedJob now k st d job) = createdAt job"
  by (simp add: updatedJob_def Let_def)

subsection \<open>The representation of the \<open>Map\<close> and the \<open>Set\<close>\<close>

lemma represented_constructor: "represented (constructor mc)"
  by (simp add: represented_def constructor_def)

lemma represented_createJob: "represented s \<Longrightarrow> represented (snd (createJob now jid ps s))"
  by (simp add: represented_def createJob_def Let_def AList.distinct_update)

lemma represented_startJob: "represented s \<Longrightarrow> represented (startJob jid s)"
  by (simp add: represented_def startJob_def AList.distinct_update set_add_def
      split: option.splits)

lemma represented_removeJob: "represented s \<Longrightarrow> represented (removeJob jid s)"
  by (simp add: represented_def removeJob_def AList.distinct_delete set_delete_def distinct_removeAll)

lemma represented_updateImageStatus:
  assumes "represented s" shows "represented (updateImageStatus now jid i st d s)"
proof (cases "map_of (jobs s) jid")
  case None
  then show ?thesis using assms by (simp add: updateImageStatus_unknown)
next
  case (Some job)
  show ?thesis
  proof (cases "0 \<le> i \<and> i < int (length (images job))")
    case True
    then have "0 \<le> i" "i < int (length (images job))" by simp_all
    from updateImageStatus_valid [OF Some this] assms show ?thesis
      by (simp add: represented_def Let_def AList.distinct_update set_delete_def distinct_removeAll)
  next
    case False
    then have "i < 0 \<or> int (length (images job)) \<le> i" by auto
    from updateImageStatus_out_of_range [OF Some this] assms show ?thesis by simp
  qed
qed

lemma represented_perform: "represented s \<Longrightarrow> represented (perform c s)"
  by (cases c) (simp_all add: represented_createJob represented_startJob represented_removeJob
      represented_updateImageStatus)

lemma represented_run: "represented s \<Longrightarrow> represented (run cs s)"
  by (induction cs arbitrary: s) (simp_all add: run_def represented_perform)

text \<open>
  After any sequence of calls, \<open>jobs.size\<close> is the number of registered ids and
  \<open>activeJobs.size\<close> the number of active ids.
\<close>

lemma sizes_are_sizes:
  "length (jobs (run cs (constructor mc))) = card (dom (map_of (jobs (run cs (constructor mc))))) \<and>
   length (activeJobs (run cs (constructor mc))) = card (set (activeJobs (run cs (constructor mc))))"
proof -
  have r: "represented (run cs (constructor mc))"
    by (simp add: represented_run represented_constructor)
  then have "card (fst ` set (jobs (run cs (constructor mc)))) = length (jobs (run cs (constructor mc)))"
    using distinct_card [of "map fst (jobs (run cs (constructor mc)))"]
    by (simp add: represented_def)
  with r show ?thesis
    by (simp add: represented_def dom_map_of_conv_image_fst distinct_card)
qed

subsection \<open>createJob\<close>

text \<open>
  Claim C5. For every job id and every sequence of N image paths, \<open>createJob\<close> returns a
  job and registers that same job under the id; the job has status pending, N image
  tasks whose paths are the input paths in the input order, every one with status
  pending, no \<open>completedAt\<close>, and the counters total = N, completed = 0, failed = 0,
  pending = N; the id is appended at the tail of the pending queue.
\<close>

theorem createJob_spec:
  "(let (job, s') = createJob now jid ps s in
     fst (getJob jid s') = Some job \<and>
     Job.status job = ''pending'' \<and>
     length (images job) = length ps \<and>
     map path (images job) = ps \<and>
     map ImageTask.status (images job) = replicate (length ps) ''pending'' \<and>
     completedAt job = None \<and>
     progress job =
       \<lparr>total = int (length ps), completed = 0, failed = 0, pending = int (length ps)\<rparr> \<and>
     queue s' = queue s @ [jid])"
  by (simp add: createJob_def getJob_def AList.update_conv' newImage_def comp_def
      map_replicate_const Let_def)

theorem createJob_spec_witness:
  "fst (getJob ''b'' (snd (createJob 9 ''b'' [''p'', ''q''] twoImages))) =
     Some (fst (createJob 9 ''b'' [''p'', ''q''] twoImages)) \<and>
   map path (images (fst (createJob 9 ''b'' [''p'', ''q''] twoImages))) = [''p'', ''q''] \<and>
   progress (fst (createJob 9 ''b'' [''p'', ''q''] twoImages)) =
     \<lparr>total = 2, completed = 0, failed = 0, pending = 2\<rparr> \<and>
   queue (snd (createJob 9 ''b'' [''p'', ''q''] twoImages)) = [''a'', ''b'']"
  using createJob_spec [of 9 "''b''" "[''p'', ''q'']" twoImages]
  by (simp add: split_beta Let_def twoImages_def createJob_def constructor_def)

subsection \<open>The queries\<close>

text \<open>
  Claim C6. In every tracker, \<open>canStartNewJob\<close> returns true if and only if the number
  of active jobs is strictly less than \<open>maxConcurrent\<close> and the pending queue is not
  empty, and it leaves the tracker as it was.
\<close>

theorem canStartNewJob_spec:
  "fst (canStartNewJob s) = (int (length (activeJobs s)) < maxConcurrent s \<and> queue s \<noteq> [])
   \<and> snd (canStartNewJob s) = s"
  by (simp add: canStartNewJob_def)

theorem canStartNewJob_spec_witness:
  "fst (canStartNewJob twoImages) \<and> snd (canStartNewJob twoImages) = twoImages"
  using canStartNewJob_spec [of twoImages]
  by (simp add: twoImages_def createJob_def constructor_def Let_def)

text \<open>
  Claim C9. In every tracker, \<open>getNextJob\<close> returns the head of the pending queue when
  the queue is not empty and nothing when it is empty; \<open>getNextJob\<close>, \<open>getJob\<close> and
  \<open>getStats\<close> leave the whole tracker (job map, active set, pending queue) as it was.
\<close>

theorem queries_spec:
  "fst (getNextJob s) = (case queue s of [] \<Rightarrow> None | jid' # rest \<Rightarrow> Some jid') \<and>
   snd (getNextJob s) = s \<and> snd (getJob jid s) = s \<and> snd (getStats s) = s"
  by (simp add: getNextJob_def getJob_def getStats_def split: list.splits)

theorem queries_spec_witness:
  "fst (getNextJob twoImages) = Some ''a'' \<and> fst (getNextJob (constructor 3)) = None \<and>
   snd (getNextJob twoImages) = twoImages \<and> snd (getJob ''a'' twoImages) = twoImages \<and>
   snd (getStats twoImages) = twoImages"
  using queries_spec [of twoImages "''a''"] queries_spec [of "constructor 3" "''a''"]
  by (simp add: twoImages_def createJob_def constructor_def Let_def)

subsection \<open>Calls that do not land\<close>

text \<open>
  Claim C7. In every tracker, \<open>updateImageStatus\<close> with an unknown job id or with an
  index outside the job's images, and \<open>startJob\<close> with an unknown job id, return the
  tracker unchanged: job map, active set, pending queue, counters, and no notification.
  The methods have no failing branch.
\<close>

theorem noop_spec:
  "(fst (getJob jid s) = None \<longrightarrow>
      updateImageStatus now jid i st d s = s \<and> startJob jid s = s) \<and>
   (fst (getJob jid s) = Some job \<and> (i < 0 \<or> int (length (images job)) \<le> i) \<longrightarrow>
      updateImageStatus now jid i st d s = s)"
  by (auto simp: getJob_def updateImageStatus_def startJob_def array_get_def)

theorem noop_spec_witness:
  "fst (getJob ''zz'' twoImages) = None \<and>
   updateImageStatus 8 ''zz'' 0 ''completed'' noData twoImages = twoImages \<and>
   startJob ''zz'' twoImages = twoImages \<and>
   fst (getJob ''a'' twoImages) = Some (fst (createJob 7 ''a'' [''x.png'', ''y.png''] (constructor 3))) \<and>
   updateImageStatus 8 ''a'' 2 ''completed'' noData twoImages = twoImages \<and>
   updateImageStatus 8 ''a'' (- 1) ''completed'' noData twoImages = twoImages"
proof -
  let ?job = "fst (createJob 7 ''a'' [''x.png'', ''y.png''] (constructor 3))"
  have u: "fst (getJob ''zz'' twoImages) = None"
    by (simp add: twoImages_def createJob_def constructor_def getJob_def Let_def)
  have k: "fst (getJob ''a'' twoImages) = Some ?job"
    by (simp add: twoImages_def createJob_def constructor_def getJob_def Let_def)
  have n: "length (images ?job) = 2"
    by (simp add: createJob_def Let_def)
  from u noop_spec [of "''zz''" twoImages 8 0 "''completed''" noData]
  have "updateImageStatus 8 ''zz'' 0 ''completed'' noData twoImages = twoImages"
    and "startJob ''zz'' twoImages = twoImages" by blast+
  moreover from k n noop_spec [of "''a''" twoImages 8 2 "''completed''" noData ?job]
  have "updateImageStatus 8 ''a'' 2 ''completed'' noData twoImages = twoImages" by simp
  moreover from k n noop_spec [of "''a''" twoImages 8 "- 1" "''completed''" noData ?job]
  have "updateImageStatus 8 ''a'' (- 1) ''completed'' noData twoImages = twoImages" by simp
  ultimately show ?thesis using u k by simp
qed

subsection \<open>The example trackers, evaluated\<close>

lemma twoJobs_eq:
  "twoJobs = \<lparr>maxConcurrent = 3, jobs = [(''a'', jobA), (''b'', jobB\<lparr>Job.status := ''processing''\<rparr>)],
      activeJobs = [''b''], queue = [''a''], emitted = [JobStart ''b'']\<rparr>"
  by (simp add: twoJobs_def twoImages_def jobA_def jobB_def createJob_def constructor_def
      startJob_def Let_def set_add_def dequeue_Cons dequeue_Nil)

lemma images_jobA: "images jobA = [newImage ''x.png'', newImage ''y.png'']"
  by (simp add: jobA_def createJob_def Let_def)

lemma images_jobB: "images jobB = [newImage ''z.png'']"
  by (simp add: jobB_def createJob_def Let_def)

lemmas eval_defs = run_def createJob_def constructor_def getJob_def Let_def startJob_def
  removeJob_def updateImageStatus_def array_get_def newImage_def terminal_def noData_def
  set_add_def set_delete_def dequeue_Cons dequeue_Nil

subsection \<open>What \<open>updateImageStatus\<close> leaves alone\<close>

lemma map_path_update:
  "k < length xs \<Longrightarrow> map path (xs[k := withData st d (xs ! k)]) = map path xs"
  by (simp add: map_update path_withData list_eq_iff_nth_eq nth_list_update)

text \<open>
  Claim C10. A call \<open>updateImageStatus(jobId, i, status, data)\<close> with a registered job id
  and an index inside the job's images leaves every image of the job at another index
  as it was, keeps the paths of all its images, its \<open>jobId\<close> and its \<open>createdAt\<close>, and
  leaves every other job as it was: its record, whether it is in the active set, and the
  whole pending queue; the order of the job map and \<open>maxConcurrent\<close> do not change
  either.
\<close>

theorem updateImageStatus_frame:
  assumes "fst (getJob jid s) = Some job" "0 \<le> i" "i < int (length (images job))"
  shows "(\<exists>job'. fst (getJob jid (updateImageStatus now jid i st d s)) = Some job' \<and>
     length (images job') = length (images job) \<and>
     (\<forall>k < length (images job). k \<noteq> nat i \<longrightarrow> images job' ! k = images job ! k) \<and>
     map path (images job') = map path (images job) \<and>
     jobId job' = jobId job \<and> createdAt job' = createdAt job) \<and>
   (\<forall>jid'. jid' \<noteq> jid \<longrightarrow>
        fst (getJob jid' (updateImageStatus now jid i st d s)) = fst (getJob jid' s) \<and>
        (jid' \<in> set (activeJobs (updateImageStatus now jid i st d s)) \<longleftrightarrow> jid' \<in> set (activeJobs s))) \<and>
   queue (updateImageStatus now jid i st d s) = queue s \<and>
   map fst (jobs (updateImageStatus now jid i st d s)) = map fst (jobs s) \<and>
   maxConcurrent (updateImageStatus now jid i st d s) = maxConcurrent s"
proof -
  from assms have j: "map_of (jobs s) jid = Some job" by (simp add: getJob_def)
  note u = updateImageStatus_valid [OF j assms(2,3)]
  have p: "map path ((images job)[nat i := withData st d (images job ! nat i)]) = map path (images job)"
    using assms(2,3) by (simp add: map_path_update)
  have 1: "\<exists>job'. fst (getJob jid (updateImageStatus now jid i st d s)) = Some job' \<and>
     length (images job') = length (images job) \<and>
     (\<forall>k < length (images job). k \<noteq> nat i \<longrightarrow> images job' ! k = images job ! k) \<and>
     map path (images job') = map path (images job) \<and>
     jobId job' = jobId job \<and> createdAt job' = createdAt job"
    using p by (simp add: u Let_def getJob_def AList.update_conv' images_updatedJob jobId_updatedJob createdAt_updatedJob)
  have 2: "\<forall>jid'. jid' \<noteq> jid \<longrightarrow>
        fst (getJob jid' (updateImageStatus now jid i st d s)) = fst (getJob jid' s) \<and>
        (jid' \<in> set (activeJobs (updateImageStatus now jid i st d s)) \<longleftrightarrow> jid' \<in> set (activeJobs s))"
    by (simp add: u Let_def getJob_def AList.update_conv' set_delete_def)
  have 3: "queue (updateImageStatus now jid i st d s) = queue s"
    by (simp add: u Let_def)
  have "map_of (jobs s) jid \<noteq> None" using j by simp
  then have "jid \<in> fst ` set (jobs s)" by (simp add: map_of_eq_None_iff)
  then have 4: "map fst (jobs (updateImageStatus now jid i st d s)) = map fst (jobs s)"
    by (simp add: u Let_def AList.update_keys)
  have 5: "maxConcurrent (updateImageStatus now jid i st d s) = maxConcurrent s"
    by (simp add: u Let_def)
  from 1 2 3 4 5 show ?thesis by blast
qed


theorem updateImageStatus_frame_witness:
  "fst (getJob ''a'' twoJobs) = Some jobA \<and> (0::int) \<le> 1 \<and> 1 < int (length (images jobA)) \<and>
   (\<exists>job'. fst (getJob ''a'' (updateImageStatus 9 ''a'' 1 ''completed'' noData twoJobs)) = Some job' \<and>
      images job' ! 0 = images jobA ! 0 \<and> map path (images job') = [''x.png'', ''y.png''] \<and>
      createdAt job' = 7) \<and>
   fst (getJob ''b'' (updateImageStatus 9 ''a'' 1 ''completed'' noData twoJobs)) = fst (getJob ''b'' twoJobs) \<and>
   ''b'' \<in> set (activeJobs (updateImageStatus 9 ''a'' 1 ''completed'' noData twoJobs)) \<and>
   queue (updateImageStatus 9 ''a'' 1 ''completed'' noData twoJobs) = [''a'']"
proof -
  have h1: "fst (getJob ''a'' twoJobs) = Some jobA"
    by (simp add: twoJobs_eq getJob_def)
  have h2: "(0::int) \<le> 1" by simp
  have h3: "1 < int (length (images jobA))" by (simp add: images_jobA)
  have b: "''b'' \<in> set (activeJobs twoJobs)" and q: "queue twoJobs = [''a'']"
    by (simp_all add: twoJobs_eq)
  have c: "createdAt jobA = 7" and p: "map path (images jobA) = [''x.png'', ''y.png'']"
    by (simp_all add: jobA_def createJob_def Let_def newImage_def)
  from updateImageStatus_frame [OF h1 h2 h3, of 9 "''completed''" noData] b q c p h1 h2 h3
  show ?thesis by fastforce
qed

subsection \<open>The guard on the pending counter\<close>

text \<open>
  Claim C4. For every job and every index inside its images, a call of
  \<open>updateImageStatus\<close> decrements \<open>progress.pending\<close> by one when the image's status
  before the call was pending, and leaves it alone otherwise. So when the method is
  called twice on the same index, the second call decrements \<open>pending\<close> only if the
  first call itself wrote the status pending; after a first call with processing,
  completed or failed (for example completed, then failed) it does not.
\<close>

theorem pending_guard:
  assumes "fst (getJob jid s) = Some job" "0 \<le> i" "i < int (length (images job))"
  shows "\<exists>job1 job2.
     fst (getJob jid (updateImageStatus now jid i st d s)) = Some job1 \<and>
     pending (progress job1) =
       pending (progress job) - (if ImageTask.status (images job ! nat i) = ''pending'' then 1 else 0) \<and>
     fst (getJob jid (updateImageStatus now' jid i st' d' (updateImageStatus now jid i st d s))) = Some job2 \<and>
     pending (progress job2) = pending (progress job1) - (if st = ''pending'' then 1 else 0)"
proof -
  from assms have j: "map_of (jobs s) jid = Some job" by (simp add: getJob_def)
  let ?s1 = "updateImageStatus now jid i st d s"
  let ?job1 = "updatedJob now (nat i) st d job"
  note u = updateImageStatus_valid [OF j assms(2,3)]
  have j1: "map_of (jobs ?s1) jid = Some ?job1"
    by (simp add: u Let_def AList.update_conv')
  have l1: "i < int (length (images ?job1))"
    using assms(3) by (simp add: images_updatedJob)
  note u1 = updateImageStatus_valid [OF j1 assms(2) l1]
  let ?job2 = "updatedJob now' (nat i) st' d' ?job1"
  have j2: "map_of (jobs (updateImageStatus now' jid i st' d' ?s1)) jid = Some ?job2"
    by (simp add: u1 Let_def AList.update_conv')
  have p1: "pending (progress ?job1) =
       pending (progress job) - (if ImageTask.status (images job ! nat i) = ''pending'' then 1 else 0)"
    by (simp add: progress_updatedJob counted_def)
  have "ImageTask.status (images ?job1 ! nat i) = st"
    using assms(2,3) by (simp add: images_updatedJob status_withData)
  then have p2: "pending (progress ?job2) = pending (progress ?job1) - (if st = ''pending'' then 1 else 0)"
    by (simp add: progress_updatedJob [of now' "nat i" st' d' ?job1] counted_def)
  from j1 j2 p1 p2 show ?thesis by (simp add: getJob_def)
qed

theorem pending_guard_witness:
  "fst (getJob ''a'' twoJobs) = Some jobA \<and> (0::int) \<le> 1 \<and> 1 < int (length (images jobA)) \<and>
   (\<exists>job1 job2.
      fst (getJob ''a'' (updateImageStatus 9 ''a'' 1 ''completed'' noData twoJobs)) = Some job1 \<and>
      pending (progress job1) = 1 \<and>
      fst (getJob ''a'' (updateImageStatus 10 ''a'' 1 ''failed'' noData
            (updateImageStatus 9 ''a'' 1 ''completed'' noData twoJobs))) = Some job2 \<and>
      pending (progress job2) = 1)"
proof -
  have h1: "fst (getJob ''a'' twoJobs) = Some jobA"
    by (simp add: twoJobs_eq getJob_def)
  have h2: "(0::int) \<le> 1" by simp
  have h3: "1 < int (length (images jobA))" by (simp add: images_jobA)
  have p: "pending (progress jobA) = 2" "ImageTask.status (images jobA ! nat 1) = ''pending''"
    by (simp_all add: jobA_def createJob_def Let_def newImage_def)
  from pending_guard [OF h1 h2 h3, of 9 "''completed''" noData 10 "''failed''" noData] p h1 h2 h3
  show ?thesis by fastforce
qed

subsection \<open>The progress counters\<close>

lemma count_list_update:
  "k < length xs \<Longrightarrow>
   int (count_list (xs[k := y]) x) =
   int (count_list xs x) - (if xs ! k = x then 1 else 0) + (if y = x then 1 else 0)"
proof (induction xs arbitrary: k)
  case Nil
  then show ?case by simp
next
  case (Cons a xs)
  show ?case
  proof (cases k)
    case 0
    then show ?thesis by simp
  next
    case (Suc n)
    with Cons.prems have "n < length xs" by simp
    from Cons.IH [OF this] Suc show ?thesis by (auto split: if_splits)
  qed
qed

lemma count_list_replicate: "count_list (replicate n x) y = (if x = y then n else 0)"
  by (induction n) auto

lemma length_four_counts:
  assumes "set xs \<subseteq> {a, b, c, d}" "distinct [a, b, c, d]"
  shows "length xs = count_list xs a + count_list xs b + count_list xs c + count_list xs d"
  using assms by (induction xs) auto

lemma tallied_sum:
  assumes "tallied job"
  shows "progressSum job + statusCount ''processing'' job = Progress.total (progress job)"
proof -
  let ?xs = "map ImageTask.status (images job)"
  from assms have "set ?xs \<subseteq> {''pending'', ''processing'', ''completed'', ''failed''}"
    by (simp add: tallied_def)
  then have "length ?xs = count_list ?xs ''pending'' + count_list ?xs ''processing''
      + count_list ?xs ''completed'' + count_list ?xs ''failed''"
    by (rule length_four_counts) simp
  then have "int (length (images job)) = statusCount ''pending'' job + statusCount ''processing'' job
      + statusCount ''completed'' job + statusCount ''failed'' job"
    by (simp add: statusCount_def)
  with assms show ?thesis by (simp add: tallied_def progressSum_def)
qed

lemma tallied_new: "tallied (fst (createJob now jid ps s))"
  by (auto simp: tallied_def createJob_def Let_def statusCount_def comp_def newImage_def
      map_replicate_const count_list_replicate)

lemma tallied_started: "tallied job \<Longrightarrow> tallied (job\<lparr>Job.status := st\<rparr>)"
  by (simp add: tallied_def statusCount_def)

lemma statuses_updatedJob:
  "map ImageTask.status (images (updatedJob now k st d job)) =
   (map ImageTask.status (images job))[k := st]"
  by (simp add: images_updatedJob map_update status_withData)

lemma tallied_updatedJob:
  assumes "tallied job" "k < length (images job)"
    "ImageTask.status (images job ! k) \<in> {''pending'', ''processing''}"
    "st \<in> {''processing'', ''completed'', ''failed''}"
  shows "tallied (updatedJob now k st d job)"
proof -
  let ?xs = "map ImageTask.status (images job)"
  have k: "k < length ?xs" "?xs ! k = ImageTask.status (images job ! k)"
    using assms(2) by simp_all
  have c: "statusCount x (updatedJob now k st d job) =
      statusCount x job - (if ImageTask.status (images job ! k) = x then 1 else 0) + (if st = x then 1 else 0)" for x
    using count_list_update [OF k(1), of st x] k(2)
    by (simp add: statusCount_def statuses_updatedJob)
  have "set (?xs[k := st]) \<subseteq> insert st (set ?xs)" by (rule set_update_subset_insert)
  with assms(1,4) have s: "set (map ImageTask.status (images (updatedJob now k st d job)))
      \<subseteq> {''pending'', ''processing'', ''completed'', ''failed''}"
    by (auto simp: statuses_updatedJob tallied_def)
  have l: "length (images (updatedJob now k st d job)) = length (images job)"
    by (simp add: images_updatedJob)
  have t: "Progress.total (progress (updatedJob now k st d job)) = Progress.total (progress job)"
    by (simp add: progress_updatedJob counted_def)
  from assms(1,3,4) have p: "pending (progress (updatedJob now k st d job)) = statusCount ''pending'' (updatedJob now k st d job)"
    by (auto simp: c progress_updatedJob counted_def tallied_def)
  from assms(1,3,4) have co: "completed (progress (updatedJob now k st d job)) = statusCount ''completed'' (updatedJob now k st d job)"
    by (auto simp: c progress_updatedJob counted_def tallied_def)
  from assms(1,3,4) have f: "failed (progress (updatedJob now k st d job)) = statusCount ''failed'' (updatedJob now k st d job)"
    by (auto simp: c progress_updatedJob counted_def tallied_def)
  from assms(1) s l t p co f show ?thesis by (simp add: tallied_def)
qed

lemma all_tallied_constructor: "all_tallied (constructor mc)"
  by (simp add: all_tallied_def constructor_def)

lemma all_tallied_createJob: "all_tallied s \<Longrightarrow> all_tallied (snd (createJob now jid ps s))"
  using tallied_new [of now jid ps s]
  by (auto simp: all_tallied_def createJob_def Let_def AList.update_conv')

lemma all_tallied_startJob: "all_tallied s \<Longrightarrow> all_tallied (startJob jid s)"
  by (auto simp: all_tallied_def startJob_def AList.update_conv' tallied_started split: option.splits if_splits)

lemma all_tallied_removeJob: "all_tallied s \<Longrightarrow> all_tallied (removeJob jid s)"
  by (auto simp: all_tallied_def removeJob_def AList.delete_conv' split: if_splits)

lemma all_tallied_updateImageStatus:
  assumes "all_tallied s" "in_lifecycle s (UpdateImageStatus now jid i st d)"
  shows "all_tallied (updateImageStatus now jid i st d s)"
proof (cases "map_of (jobs s) jid")
  case None
  then show ?thesis using assms(1) by (simp add: updateImageStatus_unknown)
next
  case (Some job)
  show ?thesis
  proof (cases "0 \<le> i \<and> i < int (length (images job))")
    case True
    then have r: "0 \<le> i" "i < int (length (images job))" by simp_all
    then have k: "nat i < length (images job)" by simp
    from assms(2) Some r have lc: "ImageTask.status (images job ! nat i) \<in> {''pending'', ''processing''}"
      "st \<in> {''processing'', ''completed'', ''failed''}"
      by (simp_all add: array_get_def)
    from assms(1) Some have "tallied job" by (simp add: all_tallied_def)
    then have "tallied (updatedJob now (nat i) st d job)"
      using k lc by (rule tallied_updatedJob)
    with assms(1) show ?thesis
      by (auto simp: updateImageStatus_valid [OF Some r] all_tallied_def Let_def AList.update_conv' split: if_splits)
  next
    case False
    then have "i < 0 \<or> int (length (images job)) \<le> i" by auto
    from updateImageStatus_out_of_range [OF Some this] assms(1) show ?thesis by simp
  qed
qed

lemma all_tallied_perform: "all_tallied s \<Longrightarrow> in_lifecycle s c \<Longrightarrow> all_tallied (perform c s)"
  by (cases c) (simp_all add: all_tallied_createJob all_tallied_startJob all_tallied_removeJob
      all_tallied_updateImageStatus del: in_lifecycle.simps)

lemma all_tallied_run: "all_tallied s \<Longrightarrow> obeys in_lifecycle s cs \<Longrightarrow> all_tallied (run cs s)"
  by (induction cs arbitrary: s) (simp_all add: run_def all_tallied_perform)

text \<open>
  Claim C1, as stated: after any sequence of calls, \<open>completed + failed + pending\<close> equals
  \<open>total\<close> for every job. It fails on the ordinary path: the update of an image to
  processing decrements \<open>pending\<close> and increments nothing, so for a job of two images
  the sum is 1 and \<open>total\<close> is 2 while the first image is being processed.
\<close>

theorem progress_sum_counterexample:
  "map_option progressSum
     (fst (getJob ''a'' (run [CreateJob 7 ''a'' [''x.png'', ''y.png''],
                               UpdateImageStatus 8 ''a'' 0 ''processing'' noData] (constructor 3))))
     = Some 1 \<and>
   map_option (Progress.total \<circ> progress)
     (fst (getJob ''a'' (run [CreateJob 7 ''a'' [''x.png'', ''y.png''],
                               UpdateImageStatus 8 ''a'' 0 ''processing'' noData] (constructor 3))))
     = Some 2"
  by (simp add: eval_defs progressSum_def)

text \<open>
  Claim C1, amended. In every tracker reached from a new one by calls in which each
  update that lands moves an image that is still pending or processing to processing,
  completed or failed, every registered job satisfies
  \<open>completed + failed + pending + (number of its images with status processing) = total\<close>;
  moreover \<open>total\<close> is the number of its images and \<open>pending\<close> the number of its pending
  images. So the sum of the three counters is \<open>total\<close> whenever no image is in processing.
\<close>

theorem progress_sum_in_lifecycle:
  assumes "obeys in_lifecycle (constructor mc) cs"
    and "fst (getJob jid (run cs (constructor mc))) = Some job"
  shows "progressSum job + statusCount ''processing'' job = Progress.total (progress job) \<and>
     Progress.total (progress job) = int (length (images job)) \<and>
     pending (progress job) = statusCount ''pending'' job"
proof -
  have "all_tallied (run cs (constructor mc))"
    using assms(1) by (simp add: all_tallied_run all_tallied_constructor)
  with assms(2) have t: "tallied job" by (simp add: all_tallied_def getJob_def)
  then show ?thesis using tallied_sum [OF t] by (simp add: tallied_def)
qed

theorem progress_sum_in_lifecycle_witness:
  "obeys in_lifecycle (constructor 3) history \<and>
   map_option progressSum (fst (getJob ''a'' (run history (constructor 3)))) = Some 1 \<and>
   map_option (statusCount ''processing'') (fst (getJob ''a'' (run history (constructor 3)))) = Some 1 \<and>
   map_option (Progress.total \<circ> progress) (fst (getJob ''a'' (run history (constructor 3)))) = Some 2"
proof -
  have h: "obeys in_lifecycle (constructor 3) history"
    by (simp add: history_def eval_defs)
  obtain job where g: "fst (getJob ''a'' (run history (constructor 3))) = Some job"
    by (simp add: history_def eval_defs)
  have p: "map_option (statusCount ''processing'') (fst (getJob ''a'' (run history (constructor 3)))) = Some 1"
    and t: "map_option (Progress.total \<circ> progress) (fst (getJob ''a'' (run history (constructor 3)))) = Some 2"
    by (simp_all add: history_def eval_defs statusCount_def)
  from progress_sum_in_lifecycle [OF h g] g p t h show ?thesis by simp
qed

subsection \<open>Completion\<close>

lemma list_all_update: "list_all P xs \<Longrightarrow> P y \<Longrightarrow> list_all P (xs[k := y])"
  using set_update_subset_insert [of xs k y] by (auto simp: list_all_iff)

lemma terminal_withData: "terminal (withData st d img) \<longleftrightarrow> st = ''completed'' \<or> st = ''failed''"
  by (simp add: terminal_def status_withData)

text \<open>
  Claim C2, as stated: \<open>jobComplete\<close> is emitted once per job, and a further update of a
  job that is already completed sets neither \<open>status\<close> nor \<open>completedAt\<close> and emits no
  \<open>jobComplete\<close>. The method does not look at the job's status: for a started job of
  one image, completed at time 8, a second update of the image (to failed, at time 9)
  sets \<open>completedAt\<close> to 9 and emits \<open>jobComplete\<close> a second time.
\<close>

theorem jobComplete_twice_counterexample:
  "map_option Job.status (fst (getJob ''c'' (updateImageStatus 8 ''c'' 0 ''completed'' noData oneImage)))
     = Some ''completed'' \<and>
   map_option completedAt (fst (getJob ''c'' (updateImageStatus 8 ''c'' 0 ''completed'' noData oneImage)))
     = Some (Some 8) \<and>
   map_option completedAt (fst (getJob ''c'' twice)) = Some (Some 9) \<and>
   count_list (emitted twice) (JobComplete ''c'') = 2"
  by (simp add: twice_def oneImage_def eval_defs)

text \<open>
  One call. A call that lands emits \<open>jobComplete\<close>, before \<open>jobUpdate\<close>, exactly when every
  image of the job is completed or failed after it, whatever the job's status was; it
  then sets \<open>status\<close> and \<open>completedAt\<close> and removes the id from the active set.
\<close>

lemma emission_per_call:
  assumes "fst (getJob jid s) = Some job" "0 \<le> i" "i < int (length (images job))"
  shows "\<exists>job'. fst (getJob jid (updateImageStatus now jid i st d s)) = Some job' \<and>
     (if list_all terminal (images job')
      then emitted (updateImageStatus now jid i st d s) =
             emitted s @ [JobComplete jid, JobUpdate jid job'] \<and>
           Job.status job' = ''completed'' \<and> completedAt job' = Some now \<and>
           jid \<notin> set (activeJobs (updateImageStatus now jid i st d s))
      else emitted (updateImageStatus now jid i st d s) = emitted s @ [JobUpdate jid job'] \<and>
           Job.status job' = Job.status job \<and> completedAt job' = completedAt job \<and>
           activeJobs (updateImageStatus now jid i st d s) = activeJobs s) \<and>
     (list_all terminal (images job) \<and> st \<in> {''completed'', ''failed''} \<longrightarrow>
        list_all terminal (images job'))"
proof -
  from assms have j: "map_of (jobs s) jid = Some job" by (simp add: getJob_def)
  note u = updateImageStatus_valid [OF j assms(2,3)]
  let ?job' = "updatedJob now (nat i) st d job"
  have g: "fst (getJob jid (updateImageStatus now jid i st d s)) = Some ?job'"
    by (simp add: u Let_def getJob_def AList.update_conv')
  have t: "list_all terminal (images ?job') \<Longrightarrow>
      Job.status ?job' = ''completed'' \<and> completedAt ?job' = Some now"
    by (simp add: updatedJob_def Let_def split: if_splits)
  have f: "\<not> list_all terminal (images ?job') \<Longrightarrow>
      Job.status ?job' = Job.status job \<and> completedAt ?job' = completedAt job"
    by (simp add: updatedJob_def Let_def split: if_splits)
  have r: "list_all terminal (images ?job')"
    if "list_all terminal (images job)" "st \<in> {''completed'', ''failed''}"
    using that by (auto simp: images_updatedJob terminal_withData intro: list_all_update)
  show ?thesis
  proof (cases "list_all terminal (images ?job')")
    case True
    with t g show ?thesis by (simp add: u Let_def set_delete_def)
  next
    case False
    with f g r show ?thesis by (auto simp: u Let_def)
  qed
qed

text \<open>Histories: the state of the completions is kept by every call.\<close>

lemma once_constructor: "once {} (constructor mc)"
  by (simp add: once_def constructor_def completions_def)

lemma not_finished_new: "\<not> finished (fst (createJob now jid ps s))"
  by (cases ps) (simp_all add: finished_def createJob_def Let_def newImage_def terminal_def)

lemma new_job_fields:
  "completedAt (fst (createJob now jid ps s)) = None"
  "Job.status (fst (createJob now jid ps s)) = ''pending''"
  by (simp_all add: createJob_def Let_def)

lemma createJob_state:
  "map_of (jobs (snd (createJob now jid ps s))) = (map_of (jobs s))(jid \<mapsto> fst (createJob now jid ps s))"
  "emitted (snd (createJob now jid ps s)) = emitted s"
  by (simp_all add: createJob_def Let_def AList.update_conv')

lemma once_createJob:
  assumes "once U s" "jid \<notin> U"
  shows "once (insert jid U) (snd (createJob now jid ps s))"
proof -
  from assms have z: "completions s jid = 0" by (simp add: once_def)
  have c: "completions (snd (createJob now jid ps s)) x = completions s x" for x
    by (simp add: completions_def createJob_state)
  show ?thesis
    unfolding once_def
  proof (intro conjI allI impI)
    fix x assume "x \<notin> insert jid U"
    with assms(1) show "map_of (jobs (snd (createJob now jid ps s))) x = None"
      by (simp add: createJob_state once_def)
    from \<open>x \<notin> insert jid U\<close> assms(1) show "completions (snd (createJob now jid ps s)) x = 0"
      by (simp add: c once_def)
  next
    fix x from assms(1) show "completions (snd (createJob now jid ps s)) x \<le> 1"
      by (simp add: c once_def)
  next
    fix x job assume j: "map_of (jobs (snd (createJob now jid ps s))) x = Some job"
    show "(completions (snd (createJob now jid ps s)) x = 1) = finished job"
      using j z assms(1) not_finished_new [of now jid ps s]
      by (auto simp: c createJob_state once_def split: if_splits)
    show "(completedAt job \<noteq> None) = finished job"
      using j assms(1) not_finished_new [of now jid ps s] new_job_fields(1) [of now jid ps s]
      by (auto simp: createJob_state once_def split: if_splits)
    assume "Job.status job = ''completed''"
    then show "finished job"
      using j assms(1) new_job_fields(2) [of now jid ps s]
      by (auto simp: createJob_state once_def split: if_splits)
  qed
qed

lemma once_startJob: assumes "once U s" shows "once U (startJob jid s)"
proof (cases "map_of (jobs s) jid")
  case None
  then show ?thesis using assms by (simp add: startJob_def)
next
  case (Some job)
  then have m: "map_of (jobs (startJob jid s)) = (map_of (jobs s))(jid \<mapsto> job\<lparr>Job.status := ''processing''\<rparr>)"
    and c: "\<And>x. completions (startJob jid s) x = completions s x"
    by (simp_all add: startJob_def AList.update_conv' completions_def)
  have f: "finished (job\<lparr>Job.status := ''processing''\<rparr>) = finished job"
    by (simp add: finished_def)
  from assms Some show ?thesis
    unfolding once_def c m
    by (auto simp: f split: if_splits)
qed

lemma once_removeJob: "once U s \<Longrightarrow> once U (removeJob jid s)"
  by (auto simp: once_def removeJob_def AList.delete_conv' completions_def split: if_splits)

lemma finished_updatedJob:
  "k < length (images job) \<Longrightarrow>
   finished (updatedJob now k st d job) = list_all terminal (images (updatedJob now k st d job))"
  by (auto simp: finished_def images_updatedJob)

lemma fields_updatedJob:
  "list_all terminal (images (updatedJob now k st d job)) \<Longrightarrow>
     completedAt (updatedJob now k st d job) = Some now \<and>
     Job.status (updatedJob now k st d job) = ''completed''"
  "\<not> list_all terminal (images (updatedJob now k st d job)) \<Longrightarrow>
     completedAt (updatedJob now k st d job) = completedAt job \<and>
     Job.status (updatedJob now k st d job) = Job.status job"
  by (simp_all add: updatedJob_def Let_def split: if_splits)

lemma not_finished_before:
  assumes "k < length (images job)" "ImageTask.status (images job ! k) \<in> {''pending'', ''processing''}"
  shows "\<not> finished job"
proof
  assume "finished job"
  then have "terminal (images job ! k)" using assms(1) by (simp add: finished_def list_all_length)
  with assms(2) show False by (auto simp: terminal_def)
qed

lemma once_updateImageStatus:
  assumes "once U s" "in_lifecycle s (UpdateImageStatus now jid i st d)"
  shows "once U (updateImageStatus now jid i st d s)"
proof (cases "map_of (jobs s) jid")
  case None
  then show ?thesis using assms(1) by (simp add: updateImageStatus_unknown)
next
  case (Some job)
  show ?thesis
  proof (cases "0 \<le> i \<and> i < int (length (images job))")
    case False
    then have "i < 0 \<or> int (length (images job)) \<le> i" by auto
    from updateImageStatus_out_of_range [OF Some this] assms(1) show ?thesis by simp
  next
    case True
    then have r: "0 \<le> i" "i < int (length (images job))" by simp_all
    then have k: "nat i < length (images job)" by simp
    let ?job' = "updatedJob now (nat i) st d job"
    let ?s' = "updateImageStatus now jid i st d s"
    let ?done = "list_all terminal (images ?job')"
    from assms(2) Some r have "ImageTask.status (images job ! nat i) \<in> {''pending'', ''processing''}"
      by (simp add: array_get_def)
    with k have nf: "\<not> finished job" by (rule not_finished_before)
    from assms(1) Some have "(completions s jid = 1) = finished job"
      "(completedAt job \<noteq> None) = finished job" "Job.status job = ''completed'' \<longrightarrow> finished job"
      by (simp_all add: once_def)
    with nf have b: "completions s jid \<noteq> 1" "completedAt job = None"
      "Job.status job \<noteq> ''completed''"
      by auto
    from assms(1) have "completions s jid \<le> 1" by (simp add: once_def)
    with b(1) have z: "completions s jid = 0" by simp
    note u = updateImageStatus_valid [OF Some r]
    have m: "map_of (jobs ?s') = (map_of (jobs s))(jid \<mapsto> ?job')"
      by (simp add: u Let_def AList.update_conv')
    have c: "completions ?s' x = (if x = jid \<and> ?done then 1 else completions s x)" for x
      using z by (simp add: u Let_def completions_def)
    have f: "finished ?job' = ?done" using k by (rule finished_updatedJob)
    have inU: "jid \<in> U" using assms(1) Some by (auto simp: once_def)
    show ?thesis
      unfolding once_def
    proof (intro conjI allI impI)
      fix x assume "x \<notin> U"
      with inU have "x \<noteq> jid" by auto
      with \<open>x \<notin> U\<close> assms(1) show "map_of (jobs ?s') x = None" "completions ?s' x = 0"
        by (simp_all add: m c once_def)
    next
      fix x from assms(1) show "completions ?s' x \<le> 1"
        by (simp add: c once_def)
    next
      fix x job2 assume j: "map_of (jobs ?s') x = Some job2"
      show "(completions ?s' x = 1) = finished job2"
      proof (cases "x = jid")
        case True
        with j have "job2 = ?job'" by (simp add: m)
        with True z f show ?thesis by (simp add: c)
      next
        case False
        with j assms(1) show ?thesis by (simp add: m c once_def)
      qed
      show "(completedAt job2 \<noteq> None) = finished job2"
      proof (cases "x = jid")
        case True
        with j have "job2 = ?job'" by (simp add: m)
        with f b(2) fields_updatedJob [of now "nat i" st d job] show ?thesis by (cases ?done) auto
      next
        case False
        with j assms(1) show ?thesis by (simp add: m once_def)
      qed
      assume st: "Job.status job2 = ''completed''"
      show "finished job2"
      proof (cases "x = jid")
        case True
        with j have "job2 = ?job'" by (simp add: m)
        with st f b(3) fields_updatedJob(2) [of now "nat i" st d job] show ?thesis by (cases ?done) auto
      next
        case False
        with j st assms(1) show ?thesis by (simp add: m once_def)
      qed
    qed
  qed
qed

lemma once_run:
  "once U s \<Longrightarrow> obeys in_lifecycle s cs \<Longrightarrow> distinct (created cs) \<Longrightarrow> set (created cs) \<inter> U = {}
   \<Longrightarrow> once (U \<union> set (created cs)) (run cs s)"
proof (induction cs arbitrary: s U)
  case Nil
  then show ?case by (simp add: run_def)
next
  case (Cons c cs)
  from Cons.prems(2) have l: "in_lifecycle s c" and o: "obeys in_lifecycle (perform c s) cs"
    by simp_all
  show ?case
  proof (cases c)
    case (CreateJob now jid ps)
    with Cons.prems have n: "jid \<notin> U" "distinct (created cs)" "set (created cs) \<inter> insert jid U = {}"
      by auto
    from Cons.prems(1) n(1) have "once (insert jid U) (perform c s)"
      by (simp add: CreateJob once_createJob)
    from Cons.IH [OF this o n(2,3)] show ?thesis
      by (simp add: run_def CreateJob)
  next
    case (StartJob jid)
    with Cons.prems have n: "distinct (created cs)" "set (created cs) \<inter> U = {}" by auto
    from Cons.prems(1) have "once U (perform c s)" by (simp add: StartJob once_startJob)
    from Cons.IH [OF this o n] show ?thesis by (simp add: run_def StartJob)
  next
    case (UpdateImageStatus now jid i st d)
    with Cons.prems have n: "distinct (created cs)" "set (created cs) \<inter> U = {}" by auto
    from Cons.prems(1) l have "once U (perform c s)"
      by (simp add: UpdateImageStatus once_updateImageStatus del: in_lifecycle.simps)
    from Cons.IH [OF this o n] show ?thesis by (simp add: run_def UpdateImageStatus)
  next
    case (RemoveJob jid)
    with Cons.prems have n: "distinct (created cs)" "set (created cs) \<inter> U = {}" by auto
    from Cons.prems(1) have "once U (perform c s)" by (simp add: RemoveJob once_removeJob)
    from Cons.IH [OF this o n] show ?thesis by (simp add: run_def RemoveJob)
  qed
qed

lemma finished_no_landing:
  assumes "map_of (jobs s) jid = Some job" "list_all terminal (images job)"
    "in_lifecycle s (UpdateImageStatus now jid i st d)"
  shows "updateImageStatus now jid i st d s = s"
proof (cases "0 \<le> i \<and> i < int (length (images job))")
  case True
  then have "0 \<le> i" "i < int (length (images job))" by simp_all
  then have k: "nat i < length (images job)" by simp
  with assms(2) have "terminal (images job ! nat i)" by (simp add: list_all_length)
  moreover from assms(1,3) True have "ImageTask.status (images job ! nat i) \<in> {''pending'', ''processing''}"
    by (simp add: array_get_def)
  ultimately show ?thesis by (auto simp: terminal_def)
next
  case False
  then have "i < 0 \<or> int (length (images job)) \<le> i" by auto
  from updateImageStatus_out_of_range [OF assms(1) this] show ?thesis .
qed

text \<open>
  Claim C2, amended. In every tracker reached from a new one by calls in which
  \<open>createJob\<close> is given each id at most once and each update that lands moves an image
  that is still pending or processing to processing, completed or failed:
  \<open>jobComplete\<close> has been emitted at most once for every job id; for a registered job it
  has been emitted exactly once if and only if the job has an image and all its images
  are completed or failed, which is also exactly when \<open>completedAt\<close> is set, and a job
  whose status is completed is such a job; so the notification fires in the call after
  which every image is terminal. Every further \<open>updateImageStatus\<close> call on such a job
  that keeps to the lifecycle returns the tracker unchanged: it sets neither \<open>status\<close>
  nor \<open>completedAt\<close> and emits nothing.
\<close>

theorem jobComplete_once:
  assumes "obeys in_lifecycle (constructor mc) cs" and "distinct (created cs)"
  shows "completions (run cs (constructor mc)) jid \<le> 1 \<and>
    (\<forall>job. fst (getJob jid (run cs (constructor mc))) = Some job \<longrightarrow>
       (completions (run cs (constructor mc)) jid = 1) = finished job \<and>
       (completedAt job \<noteq> None) = finished job \<and>
       (Job.status job = ''completed'' \<longrightarrow> finished job) \<and>
       (\<forall>now i st d. finished job \<and>
            in_lifecycle (run cs (constructor mc)) (UpdateImageStatus now jid i st d) \<longrightarrow>
          updateImageStatus now jid i st d (run cs (constructor mc)) = run cs (constructor mc)))"
proof -
  let ?s = "run cs (constructor mc)"
  from once_run [OF once_constructor assms(1,2)] have o: "once (set (created cs)) ?s" by simp
  then have a: "completions ?s jid \<le> 1" by (simp add: once_def)
  have b: "(completions ?s jid = 1) = finished job \<and>
       (completedAt job \<noteq> None) = finished job \<and>
       (Job.status job = ''completed'' \<longrightarrow> finished job) \<and>
       (\<forall>now i st d. finished job \<and> in_lifecycle ?s (UpdateImageStatus now jid i st d) \<longrightarrow>
          updateImageStatus now jid i st d ?s = ?s)"
    if g: "fst (getJob jid ?s) = Some job" for job
  proof -
    from g have j: "map_of (jobs ?s) jid = Some job" by (simp add: getJob_def)
    have "updateImageStatus now jid i st d ?s = ?s"
      if "finished job" "in_lifecycle ?s (UpdateImageStatus now jid i st d)" for now i st d
      using j that by (simp add: finished_def finished_no_landing del: in_lifecycle.simps)
    with o j show ?thesis by (simp add: once_def del: in_lifecycle.simps)
  qed
  from a b show ?thesis by blast
qed

theorem jobComplete_once_witness:
  "obeys in_lifecycle (constructor 3) scenario \<and> distinct (created scenario) \<and>
   obeys in_lifecycle (constructor 3) (butlast scenario) \<and> distinct (created (butlast scenario)) \<and>
   completions (run (butlast scenario) (constructor 3)) ''a'' = 0 \<and>
   map_option Job.status (fst (getJob ''a'' (run (butlast scenario) (constructor 3)))) = Some ''processing'' \<and>
   completions (run scenario (constructor 3)) ''a'' = 1 \<and>
   map_option Job.status (fst (getJob ''a'' (run scenario (constructor 3)))) = Some ''completed'' \<and>
   map_option completedAt (fst (getJob ''a'' (run scenario (constructor 3)))) = Some (Some 10) \<and>
   updateImageStatus 11 ''a'' 3 ''failed'' noData (run scenario (constructor 3)) = run scenario (constructor 3)"
proof -
  let ?s = "run scenario (constructor 3)"
  let ?r = "run (butlast scenario) (constructor 3)"
  have h1: "obeys in_lifecycle (constructor 3) scenario" and h2: "distinct (created scenario)"
    by (simp_all add: scenario_def eval_defs)
  have h3: "obeys in_lifecycle (constructor 3) (butlast scenario)"
    and h4: "distinct (created (butlast scenario))"
    by (simp_all add: scenario_def eval_defs)
  obtain job where g: "fst (getJob ''a'' ?s) = Some job" and f: "finished job"
    and st: "Job.status job = ''completed''" and c: "completedAt job = Some 10"
    by (simp add: scenario_def eval_defs finished_def)
  obtain job0 where g0: "fst (getJob ''a'' ?r) = Some job0" and f0: "\<not> finished job0"
    and st0: "Job.status job0 = ''processing''"
    by (simp add: scenario_def eval_defs finished_def)
  have l: "in_lifecycle ?s (UpdateImageStatus 11 ''a'' 3 ''failed'' noData)"
    by (simp add: scenario_def eval_defs)
  from jobComplete_once [OF h1 h2, of "''a''"] g f l
  have 1: "completions ?s ''a'' = 1"
    and 2: "updateImageStatus 11 ''a'' 3 ''failed'' noData ?s = ?s"
    by (simp_all del: in_lifecycle.simps)
  from jobComplete_once [OF h3 h4, of "''a''"] g0 f0
  have "completions ?r ''a'' \<le> 1" "completions ?r ''a'' \<noteq> 1" by simp_all
  then have 3: "completions ?r ''a'' = 0" by simp
  from 1 2 3 h1 h2 h3 h4 g st c g0 st0 show ?thesis by simp
qed

subsection \<open>A job without images\<close>

text \<open>
  Claim C3, as stated: \<open>startJob\<close> on a job created with an empty image list completes
  it at once (status completed, \<open>completedAt\<close> set, \<open>jobComplete\<close> emitted). \<open>startJob\<close>
  has no such branch: the job is processing, \<open>completedAt\<close> is unset and \<open>jobStart\<close> is
  the only notification.
\<close>

theorem startJob_empty_counterexample:
  "map_option Job.status (fst (getJob ''e'' (startJob ''e'' noImages))) = Some ''processing'' \<and>
   map_option completedAt (fst (getJob ''e'' (startJob ''e'' noImages))) = Some None \<and>
   emitted (startJob ''e'' noImages) = [JobStart ''e'']"
  by (simp add: noImages_def eval_defs)

text \<open>
  Claim C3, amended. For a job created with an empty image list, \<open>startJob\<close> sets the
  status to processing, leaves \<open>completedAt\<close> unset, puts the id in the active set and
  emits \<open>jobStart\<close> only; every later \<open>updateImageStatus\<close> on that job returns the
  tracker unchanged, since no index is inside an empty array.
\<close>

theorem startJob_empty:
  "(let s1 = snd (createJob now jid [] s); s2 = startJob jid s1 in
     map_option Job.status (fst (getJob jid s2)) = Some ''processing'' \<and>
     map_option completedAt (fst (getJob jid s2)) = Some None \<and>
     emitted s2 = emitted s @ [JobStart jid] \<and>
     jid \<in> set (activeJobs s2) \<and>
     updateImageStatus now' jid i st d s2 = s2)"
proof -
  let ?job = "fst (createJob now jid [] s)"
  let ?s1 = "snd (createJob now jid [] s)"
  let ?s2 = "startJob jid ?s1"
  have j1: "map_of (jobs ?s1) jid = Some ?job"
    by (simp add: createJob_def Let_def AList.update_conv')
  have e1: "emitted ?s1 = emitted s"
    by (simp add: createJob_def Let_def)
  have s2: "?s2 = ?s1\<lparr>jobs := AList.update jid (?job\<lparr>Job.status := ''processing''\<rparr>) (jobs ?s1),
            activeJobs := set_add jid (activeJobs ?s1),
            queue := dequeue jid (queue ?s1),
            emitted := emitted ?s1 @ [JobStart jid]\<rparr>"
    using j1 by (simp add: startJob_def)
  have j2: "map_of (jobs ?s2) jid = Some (?job\<lparr>Job.status := ''processing''\<rparr>)"
    by (simp add: s2 AList.update_conv')
  have im: "images (?job\<lparr>Job.status := ''processing''\<rparr>) = []"
    and c: "completedAt (?job\<lparr>Job.status := ''processing''\<rparr>) = None"
    by (simp_all add: createJob_def Let_def)
  have "i < 0 \<or> int (length (images (?job\<lparr>Job.status := ''processing''\<rparr>))) \<le> i"
    using im by auto
  then have u: "updateImageStatus now' jid i st d ?s2 = ?s2"
    by (rule updateImageStatus_out_of_range [OF j2])
  have a: "jid \<in> set (activeJobs ?s2)"
    by (simp add: s2 set_add_def)
  have e: "emitted ?s2 = emitted s @ [JobStart jid]"
    by (simp add: s2 e1)
  from j2 c u a e show ?thesis
    by (simp add: Let_def getJob_def)
qed

theorem startJob_empty_witness:
  "map_option Job.status (fst (getJob ''e'' (startJob ''e'' noImages))) = Some ''processing'' \<and>
   ''e'' \<in> set (activeJobs (startJob ''e'' noImages)) \<and>
   updateImageStatus 9 ''e'' 0 ''completed'' noData (startJob ''e'' noImages) = startJob ''e'' noImages"
  using startJob_empty [of 7 "''e''" "constructor 3" 9 0 "''completed''" noData]
  by (simp add: Let_def noImages_def)

subsection \<open>removeJob\<close>

lemma keys_delete: "fst ` set (AList.delete k al) = fst ` set al - {k}"
  by (induction al) auto

lemma known_iff: "map_of al k = None \<longleftrightarrow> k \<notin> fst ` set al"
  by (simp add: map_of_eq_None_iff)

lemma tidy_constructor: "tidy (constructor mc)"
  by (simp add: tidy_def constructor_def)

lemma tidy_createJob:
  assumes "tidy s" "map_of (jobs s) jid = None"
  shows "tidy (snd (createJob now jid ps s))"
proof -
  from assms have "jid \<notin> set (queue s)" by (auto simp: tidy_def known_iff)
  with assms(1) show ?thesis
    by (auto simp: tidy_def createJob_def Let_def AList.dom_update)
qed

lemma tidy_startJob: "tidy s \<Longrightarrow> tidy (startJob jid s)"
  by (auto simp: tidy_def startJob_def AList.dom_update set_add_def dequeue_remove1 known_iff
      split: option.splits)

lemma tidy_removeJob: "tidy s \<Longrightarrow> tidy (removeJob jid s)"
  by (auto simp: tidy_def removeJob_def keys_delete set_delete_def dequeue_remove1)

lemma tidy_updateImageStatus:
  assumes "tidy s" shows "tidy (updateImageStatus now jid i st d s)"
proof (cases "map_of (jobs s) jid")
  case None
  then show ?thesis using assms by (simp add: updateImageStatus_unknown)
next
  case (Some job)
  show ?thesis
  proof (cases "0 \<le> i \<and> i < int (length (images job))")
    case True
    then have "0 \<le> i" "i < int (length (images job))" by simp_all
    from updateImageStatus_valid [OF Some this] assms show ?thesis
      by (auto simp: tidy_def Let_def AList.dom_update set_delete_def)
  next
    case False
    then have "i < 0 \<or> int (length (images job)) \<le> i" by auto
    from updateImageStatus_out_of_range [OF Some this] assms show ?thesis by simp
  qed
qed

lemma tidy_perform: "tidy s \<Longrightarrow> fresh_id s c \<Longrightarrow> tidy (perform c s)"
  by (cases c) (simp_all add: tidy_createJob tidy_startJob tidy_removeJob tidy_updateImageStatus)

lemma tidy_run: "tidy s \<Longrightarrow> obeys fresh_id s cs \<Longrightarrow> tidy (run cs s)"
  by (induction cs arbitrary: s) (simp_all add: run_def tidy_perform)

lemma removeJob_gone:
  "map_of (jobs (removeJob jid s)) jid = None" "jid \<notin> set (activeJobs (removeJob jid s))"
  by (simp_all add: removeJob_def AList.delete_conv' set_delete_def)

lemma removeJob_dequeued:
  "distinct (queue s) \<Longrightarrow> jid \<notin> set (queue (removeJob jid s))"
  by (simp add: removeJob_def dequeue_remove1)

lemma removeJob_absent:
  assumes "map_of (jobs s) jid = None" "jid \<notin> set (activeJobs s)" "jid \<notin> set (queue s)"
  shows "removeJob jid s = s"
proof -
  from assms(1) have "AList.delete jid (jobs s) = jobs s" by (simp add: known_iff)
  with assms(2,3) show ?thesis
    by (simp add: removeJob_def set_delete_def dequeue_remove1 remove1_idem)
qed

text \<open>
  Claim C8, as stated: after \<open>removeJob(jobId)\<close> the id is in none of the job map, the
  active set and the pending queue, and \<open>removeJob\<close> of an unregistered id changes
  nothing. \<open>splice\<close> removes one occurrence: when \<open>createJob\<close> was called twice with the
  same id, the id is still queued after \<open>removeJob\<close>, and a second \<open>removeJob\<close> of the
  now unregistered id changes the queue.
\<close>

theorem removeJob_duplicate_counterexample:
  "''a'' \<in> set (queue (removeJob ''a'' dup)) \<and>
   fst (getJob ''a'' (removeJob ''a'' dup)) = None \<and>
   removeJob ''a'' (removeJob ''a'' dup) \<noteq> removeJob ''a'' dup"
  by (simp add: dup_def eval_defs)

text \<open>
  Claim C8, amended. In every tracker reached from a new one by calls in which
  \<open>createJob\<close> is never given an id that is registered at that moment, after
  \<open>removeJob(jobId)\<close> the id is in none of the job map, the active set and the pending
  queue, and \<open>getJob(jobId)\<close> returns nothing; \<open>removeJob\<close> of an unregistered id returns
  the tracker unchanged, and so does a second \<open>removeJob\<close> of the same id.
\<close>

theorem removeJob_spec:
  assumes "obeys fresh_id (constructor mc) cs"
  shows "fst (getJob jid (removeJob jid (run cs (constructor mc)))) = None \<and>
     jid \<notin> set (activeJobs (removeJob jid (run cs (constructor mc)))) \<and>
     jid \<notin> set (queue (removeJob jid (run cs (constructor mc)))) \<and>
     (fst (getJob jid (run cs (constructor mc))) = None \<longrightarrow>
        removeJob jid (run cs (constructor mc)) = run cs (constructor mc)) \<and>
     removeJob jid (removeJob jid (run cs (constructor mc))) = removeJob jid (run cs (constructor mc))"
proof -
  let ?s = "run cs (constructor mc)"
  have t: "tidy ?s" using assms by (simp add: tidy_run tidy_constructor)
  then have t': "tidy (removeJob jid ?s)" by (rule tidy_removeJob)
  have d: "distinct (queue ?s)" using t by (simp add: tidy_def)
  have n: "removeJob jid ?s = ?s" if "map_of (jobs ?s) jid = None"
  proof -
    from that have "jid \<notin> fst ` set (jobs ?s)" by (simp add: known_iff)
    with t have "jid \<notin> set (activeJobs ?s)" "jid \<notin> set (queue ?s)" by (auto simp: tidy_def)
    with that show ?thesis by (simp add: removeJob_absent)
  qed
  have q: "jid \<notin> set (queue (removeJob jid ?s))" using d by (rule removeJob_dequeued)
  have "removeJob jid (removeJob jid ?s) = removeJob jid ?s"
    using removeJob_gone [of jid ?s] q by (simp add: removeJob_absent)
  with n q removeJob_gone [of jid ?s] show ?thesis by (simp add: getJob_def)
qed

theorem removeJob_spec_witness:
  "obeys fresh_id (constructor 3) cleanup \<and>
   fst (getJob ''b'' (run cleanup (constructor 3))) \<noteq> None \<and>
   ''b'' \<in> set (activeJobs (run cleanup (constructor 3))) \<and>
   fst (getJob ''b'' (removeJob ''b'' (run cleanup (constructor 3)))) = None \<and>
   ''b'' \<notin> set (activeJobs (removeJob ''b'' (run cleanup (constructor 3)))) \<and>
   ''b'' \<notin> set (queue (removeJob ''b'' (run cleanup (constructor 3)))) \<and>
   fst (getJob ''a'' (run cleanup (constructor 3))) = None \<and>
   removeJob ''a'' (run cleanup (constructor 3)) = run cleanup (constructor 3)"
proof -
  have h: "obeys fresh_id (constructor 3) cleanup"
    by (simp add: cleanup_def eval_defs)
  have b: "fst (getJob ''b'' (run cleanup (constructor 3))) \<noteq> None"
    "''b'' \<in> set (activeJobs (run cleanup (constructor 3)))"
    and a: "fst (getJob ''a'' (run cleanup (constructor 3))) = None"
    by (simp_all add: cleanup_def eval_defs)
  from removeJob_spec [OF h, of "''b''"] removeJob_spec [OF h, of "''a''"] h a b
  show ?thesis by simp
qed

end
